theory Spec2Isabelle
  imports Complex_Main "HOL-Library.Sublist"
begin

text \<open>
  The organisation chart viewer: building the employee index from CSV rows
  (\<open>buildEmployeeMap\<close>), searching it (\<open>searchEmployees\<close>), the view state of the
  application (\<open>handleUpload\<close>, \<open>goUp\<close>) and the fit-to-screen transform of the chart
  (\<open>fitToScreen\<close>). Parsing the CSV text, the tree layout and the rendering are outside
  the model: rows arrive parsed, and layout coordinates arrive as numbers.
\<close>

section \<open>JavaScript values used by the program\<close>

text \<open>
  A property read such as \<open>row.EMPLOYEENUMBER\<close> yields a string or \<open>undefined\<close>; this is a
  \<open>string option\<close>, with \<open>None\<close> for \<open>undefined\<close> and \<open>null\<close>. Strings are lists of 8-bit
  characters, read as the code points U+0000 to U+00FF.
\<close>

definition truthy :: "string option \<Rightarrow> bool" where
  "truthy v = (case v of None \<Rightarrow> False | Some s \<Rightarrow> s \<noteq> [])"

text \<open>The operator \<open>a || b\<close>: the left operand when it is truthy, the right one otherwise.\<close>

definition js_or :: "string option \<Rightarrow> string option \<Rightarrow> string option" where
  "js_or a b = (if truthy a then a else b)"

text \<open>
  \<open>String.prototype.toLowerCase\<close> on the code points below U+0100: the letters A to Z and
  the Latin-1 capitals U+00C0 to U+00DE (the multiplication sign U+00D7 apart) move up by 32.
\<close>

definition toLowerCase_char :: "char \<Rightarrow> char" where
  "toLowerCase_char c =
     (let n = (of_char c :: nat)
      in if (65 \<le> n \<and> n \<le> 90) \<or> (192 \<le> n \<and> n \<le> 222 \<and> n \<noteq> 215)
         then char_of (n + 32) else c)"

definition toLowerCase :: "string \<Rightarrow> string" where
  "toLowerCase s = map toLowerCase_char s"

text \<open>
  \<open>String.prototype.trim\<close> strips white space and line terminators from both ends; below
  U+0100 these are TAB, LF, VT, FF, CR, SPACE and the no-break space U+00A0.
\<close>

definition isWhiteSpace :: "char \<Rightarrow> bool" where
  "isWhiteSpace c = ((of_char c :: nat) \<in> {9, 10, 11, 12, 13, 32, 160})"

definition trim :: "string \<Rightarrow> string" where
  "trim s = rev (dropWhile isWhiteSpace (rev (dropWhile isWhiteSpace s)))"

text \<open>
  \<open>s.includes(q)\<close>: \<open>q\<close> occurs in \<open>s\<close> as a contiguous run of characters. The name
  carries a prefix because \<open>includes\<close> is a reserved word of Isabelle.
\<close>

fun str_includes :: "string \<Rightarrow> string \<Rightarrow> bool" where
  "str_includes [] q = (q = [])"
| "str_includes (c # cs) q = (prefix q (c # cs) \<or> str_includes cs q)"

section \<open>The data model of \<open>types.ts\<close>\<close>

text \<open>A raw CSV row is an object from column names to strings.\<close>

type_synonym RawCsvRow = "string \<rightharpoonup> string"

text \<open>
  An \<open>Employee\<close> object. The source's \<open>children\<close> array holds references to other
  \<open>Employee\<close> objects of the same map, and a node may come to hold a reference to itself;
  the model stores each reference as the key under which the referenced object sits
  in the map, so the map is the store and its keys are the addresses.
\<close>

record Employee =
  id_emp :: string
  managerId :: "string option"
  name :: string
  children :: "string list"

text \<open>
  A JavaScript \<open>Map\<close> iterates in insertion order, and \<open>set\<close> on a key that is already
  present replaces the value where the key stands: an association list with \<open>map_set\<close>.
\<close>

type_synonym 'v js_map = "(string \<times> 'v) list"

fun map_set :: "string \<Rightarrow> 'v \<Rightarrow> 'v js_map \<Rightarrow> 'v js_map" where
  "map_set k v [] = [(k, v)]"
| "map_set k v (p # ps) = (if fst p = k then (k, v) # ps else p # map_set k v ps)"

definition map_get :: "'v js_map \<Rightarrow> string \<Rightarrow> 'v option" where
  "map_get m k = map_of m k"

definition map_has :: "'v js_map \<Rightarrow> string \<Rightarrow> bool" where
  "map_has m k = (map_of m k \<noteq> None)"

definition map_keys :: "'v js_map \<Rightarrow> string list" where
  "map_keys m = map fst m"

definition map_values :: "'v js_map \<Rightarrow> 'v list" where
  "map_values m = map snd m"

section \<open>\<open>buildEmployeeMap\<close> (\<open>utils/dataProcessing.ts\<close>)\<close>

definition row_id :: "RawCsvRow \<Rightarrow> string option" where
  "row_id row = js_or (row ''EMPLOYEENUMBER'') (row ''EMPLOYEE ID'')"

definition row_managerId :: "RawCsvRow \<Rightarrow> string option" where
  "row_managerId row =
     js_or (js_or (row ''SUPERVISORPARTYID'') (row ''MANAGER ID'')) (row ''SUPERVISOR ID'')"

definition row_name :: "RawCsvRow \<Rightarrow> string option" where
  "row_name row = js_or (js_or (row ''FIRSTNAME'') (row ''NAME'')) (row ''FULL NAME'')"

text \<open>The object literal that the first pass stores for a row whose identifier is \<open>i\<close>.\<close>

definition new_employee :: "string \<Rightarrow> RawCsvRow \<Rightarrow> Employee" where
  "new_employee i row =
     \<lparr> id_emp = i,
       managerId = (if truthy (row_managerId row) then row_managerId row else None),
       name = (case js_or (row_name row) (Some ''Unknown'') of
                 Some s \<Rightarrow> s | None \<Rightarrow> ''Unknown''),
       children = [] \<rparr>"

text \<open>The body of the first \<open>rows.forEach\<close>.\<close>

definition node_step :: "Employee js_map \<Rightarrow> RawCsvRow \<Rightarrow> Employee js_map" where
  "node_step employeeMap row =
     (case row_id row of
        None \<Rightarrow> employeeMap
      | Some i \<Rightarrow> if i \<noteq> [] then map_set i (new_employee i row) employeeMap
                 else employeeMap)"

definition node_pass :: "RawCsvRow list \<Rightarrow> Employee js_map" where
  "node_pass rows = foldl node_step [] rows"

text \<open>
  The body of \<open>employeeMap.forEach\<close> in the second pass, for the entry stored under key
  \<open>k\<close>. The state is the map together with the lines written by \<open>console.warn\<close>, each
  kept as the pair (manager id, employee id) that the message prints.
\<close>

definition link_step ::
  "Employee js_map \<times> (string \<times> string) list \<Rightarrow> string
     \<Rightarrow> Employee js_map \<times> (string \<times> string) list" where
  "link_step st k =
     (case st of (employeeMap, warnings) \<Rightarrow>
       (case map_get employeeMap k of
          None \<Rightarrow> st
        | Some employee \<Rightarrow>
            (case managerId employee of
               None \<Rightarrow> st
             | Some mid \<Rightarrow>
                 if mid = [] then st
                 else (case map_get employeeMap mid of
                         Some manager \<Rightarrow>
                           (map_set mid (manager\<lparr>children := children manager @ [k]\<rparr>)
                              employeeMap,
                            warnings)
                       | None \<Rightarrow> (employeeMap, warnings @ [(mid, id_emp employee)])))))"

definition link_pass ::
  "Employee js_map \<Rightarrow> Employee js_map \<times> (string \<times> string) list" where
  "link_pass employeeMap = foldl link_step (employeeMap, []) (map_keys employeeMap)"

definition buildEmployeeMap :: "RawCsvRow list \<Rightarrow> Employee js_map" where
  "buildEmployeeMap rows = fst (link_pass (node_pass rows))"

text \<open>The employee ids named by the warnings of a build, in the order they were logged.\<close>

definition build_warnings :: "RawCsvRow list \<Rightarrow> (string \<times> string) list" where
  "build_warnings rows = snd (link_pass (node_pass rows))"

definition unreferenced_ids :: "RawCsvRow list \<Rightarrow> string list" where
  "unreferenced_ids rows = map snd (build_warnings rows)"

section \<open>\<open>searchEmployees\<close> (\<open>utils/dataProcessing.ts\<close>)\<close>

datatype SearchField = Id_field | Name_field | ManagerId_field

text \<open>The body of \<open>map.forEach\<close>: \<open>results.push(employee)\<close> when the chosen field matches.\<close>

definition search_step ::
  "string \<Rightarrow> SearchField \<Rightarrow> Employee list \<Rightarrow> Employee \<Rightarrow> Employee list" where
  "search_step queryLower field results employee =
     (case field of
        Id_field \<Rightarrow>
          if str_includes (toLowerCase (id_emp employee)) queryLower
          then results @ [employee] else results
      | Name_field \<Rightarrow>
          if str_includes (toLowerCase (name employee)) queryLower
          then results @ [employee] else results
      | ManagerId_field \<Rightarrow>
          (case managerId employee of
             None \<Rightarrow> results
           | Some mid \<Rightarrow>
               if mid \<noteq> [] \<and> str_includes (toLowerCase mid) queryLower
               then results @ [employee] else results))"

definition searchEmployees ::
  "Employee js_map \<Rightarrow> string \<Rightarrow> SearchField \<Rightarrow> Employee list" where
  "searchEmployees m query field =
     (let queryLower = trim (toLowerCase query)
      in if queryLower = [] then []
         else foldl (search_step queryLower field) [] (map_values m))"

section \<open>The view state of \<open>App.tsx\<close>\<close>

text \<open>
  The React state of \<open>App\<close>. \<open>viewRoot\<close> holds an \<open>Employee\<close> object of the map; the model
  keeps the object's value, whose \<open>id_emp\<close> is the key of the map entry it is.
\<close>

record App_state =
  employeeMap :: "Employee js_map option"
  viewRoot :: "Employee option"
  searchQuery :: string
  searchResults :: "Employee list"
  isLoading :: bool
  uploadError :: "string option"

text \<open>The test \<open>!emp.managerId || !map.has(emp.managerId)\<close> of \<open>handleUpload\<close>.\<close>

definition is_root_candidate :: "Employee js_map \<Rightarrow> Employee \<Rightarrow> bool" where
  "is_root_candidate m emp = (\<not> truthy (managerId emp) \<or>
     (case managerId emp of None \<Rightarrow> True | Some mid \<Rightarrow> \<not> map_has m mid))"

text \<open>
  The default view root: the first value of the map (\<open>undefined\<close> for an empty map),
  replaced by the first root candidate in iteration order when there is one.
\<close>

definition default_root :: "Employee js_map \<Rightarrow> Employee option" where
  "default_root m =
     (case find (is_root_candidate m) (map_values m) of
        Some emp \<Rightarrow> Some emp
      | None \<Rightarrow> (case map_values m of [] \<Rightarrow> None | emp # _ \<Rightarrow> Some emp))"

text \<open>
  The \<open>try\<close> block of \<open>handleUpload\<close>, on the rows that \<open>parseCsv\<close> delivered: \<open>Inl\<close> is
  the thrown error, \<open>Inr\<close> the map and the view root that the block sets.
\<close>

definition handleUpload_try ::
  "RawCsvRow list \<Rightarrow> string + (Employee js_map \<times> Employee option)" where
  "handleUpload_try rawData =
     (if length rawData = 0 then Inl ''CSV file is empty or invalid.''
      else (let m = buildEmployeeMap rawData in Inr (m, default_root m)))"

definition handleUpload :: "App_state \<Rightarrow> RawCsvRow list \<Rightarrow> App_state" where
  "handleUpload s rawData =
     (let s1 = s\<lparr>isLoading := True, uploadError := None\<rparr>
      in case handleUpload_try rawData of
           Inr (m, defaultRoot) \<Rightarrow>
             s1\<lparr>employeeMap := Some m, viewRoot := defaultRoot, isLoading := False\<rparr>
         | Inl err \<Rightarrow>
             s1\<lparr>uploadError := Some ''Failed to parse CSV. Please check the format.'',
                isLoading := False\<rparr>)"

text \<open>
  The value a call hands back. \<open>goUp\<close> has only bare \<open>return\<close> statements and the end of
  its body, so every path hands back \<open>undefined\<close>.
\<close>

datatype js_value = Undefined | Boolean bool

text \<open>A call of \<open>goUp\<close>: the value returned and the state after the call.\<close>

definition goUp_call :: "App_state \<Rightarrow> js_value \<times> App_state" where
  "goUp_call s =
     (case viewRoot s of
        None \<Rightarrow> (Undefined, s)
      | Some current \<Rightarrow>
          (case managerId current of
             None \<Rightarrow> (Undefined, s)
           | Some mid \<Rightarrow>
               if mid = [] then (Undefined, s)
               else (case employeeMap s of
                       None \<Rightarrow> (Undefined, s)
                     | Some m \<Rightarrow>
                         (case map_get m mid of
                            Some manager \<Rightarrow> (Undefined, s\<lparr>viewRoot := Some manager\<rparr>)
                          | None \<Rightarrow> (Undefined, s)))))"

definition goUp :: "App_state \<Rightarrow> App_state" where
  "goUp s = snd (goUp_call s)"

definition goUp_returns :: "App_state \<Rightarrow> js_value" where
  "goUp_returns s = fst (goUp_call s)"

section \<open>\<open>fitToScreen\<close> (the chart component)\<close>

text \<open>
  Numbers are exact rationals; the rounding of IEEE doubles is not modelled. The loop
  that finds the bounds starts from \<open>Infinity\<close> and \<open>-Infinity\<close>, so its accumulators
  range over the rationals extended by the two infinities.
\<close>

datatype jsnum = NegInfinity | Num rat | Infinity

fun js_lt :: "jsnum \<Rightarrow> jsnum \<Rightarrow> bool" where
  "js_lt (Num a) (Num b) = (a < b)"
| "js_lt NegInfinity NegInfinity = False"
| "js_lt NegInfinity b = True"
| "js_lt a Infinity = (a \<noteq> Infinity)"
| "js_lt a b = False"

definition CARD_WIDTH :: rat where "CARD_WIDTH = 260"
definition CARD_HEIGHT :: rat where "CARD_HEIGHT = 100"
definition padding :: rat where "padding = 100"

text \<open>The body of \<open>nodes.forEach\<close>; a node is the pair of its layout coordinates \<open>(x, y)\<close>.\<close>

definition bounds_step ::
  "jsnum \<times> jsnum \<times> jsnum \<times> jsnum \<Rightarrow> rat \<times> rat \<Rightarrow> jsnum \<times> jsnum \<times> jsnum \<times> jsnum" where
  "bounds_step b d =
     (case b of (minX, maxX, minY, maxY) \<Rightarrow>
        (if js_lt (Num (fst d)) minX then Num (fst d) else minX,
         if js_lt maxX (Num (fst d)) then Num (fst d) else maxX,
         if js_lt (Num (snd d)) minY then Num (snd d) else minY,
         if js_lt maxY (Num (snd d)) then Num (snd d) else maxY))"

fun finite_bounds :: "jsnum \<times> jsnum \<times> jsnum \<times> jsnum \<Rightarrow> (rat \<times> rat \<times> rat \<times> rat) option" where
  "finite_bounds (Num a, Num b, Num c, Num d) = Some (a, b, c, d)"
| "finite_bounds _ = None"

text \<open>
  The bounding box after the card dimensions are added: \<open>(minX, maxX, minY, maxY)\<close>.
  \<open>None\<close> stands for bounds that are still infinite, which is the case of no node.
\<close>

definition bounding_box :: "(rat \<times> rat) list \<Rightarrow> (rat \<times> rat \<times> rat \<times> rat) option" where
  "bounding_box nodes =
     (case finite_bounds (foldl bounds_step (Infinity, NegInfinity, Infinity, NegInfinity) nodes) of
        None \<Rightarrow> None
      | Some (minX, maxX, minY, maxY) \<Rightarrow>
          Some (minX - CARD_WIDTH / 2, maxX + CARD_WIDTH / 2, minY, maxY + CARD_HEIGHT))"

text \<open>Division, with \<open>None\<close> for a zero divisor (where JavaScript gives an infinity or NaN).\<close>

definition js_div :: "rat \<Rightarrow> rat \<Rightarrow> rat option" where
  "js_div a b = (if b = 0 then None else Some (a / b))"

text \<open>The transform \<open>d3.zoomIdentity.translate(tx, ty).scale(clampedScale)\<close>.\<close>

record Transform =
  tx :: rat
  ty :: rat
  clampedScale :: rat

text \<open>
  The transform that \<open>fitToScreen\<close> hands to the zoom behaviour, for a viewport of
  \<open>svgWidth\<close> by \<open>svgHeight\<close>, once the component is mounted and the zoom behaviour is
  installed (before that the function returns without effect). \<open>None\<close> is a transform
  with a component that is not a finite number.
\<close>

definition fitToScreen :: "(rat \<times> rat) list \<Rightarrow> rat \<Rightarrow> rat \<Rightarrow> Transform option" where
  "fitToScreen nodes svgWidth svgHeight =
     (case bounding_box nodes of
        None \<Rightarrow> None
      | Some (minX, maxX, minY, maxY) \<Rightarrow>
          (let width = maxX - minX; height = maxY - minY
           in case js_div (svgWidth - padding) width of
                None \<Rightarrow> None
              | Some sw \<Rightarrow>
                 (case js_div (svgHeight - padding) height of
                    None \<Rightarrow> None
                  | Some sh \<Rightarrow>
                     (let scale = min sw sh;
                          cs = min (max scale (1 / 5)) 1;
                          centerX = (minX + maxX) / 2;
                          centerY = (minY + maxY) / 2
                      in Some \<lparr> tx = svgWidth / 2 - centerX * cs,
                                ty = svgHeight / 2 - centerY * cs - (height * cs / 2) + 50,
                                clampedScale = cs \<rparr>))))"

section \<open>Notions used to state the properties\<close>

text \<open>The identifier under which a row is stored, if the row is stored at all.\<close>

definition usable_id :: "RawCsvRow \<Rightarrow> string option" where
  "usable_id row = (if truthy (row_id row) then row_id row else None)"

text \<open>A value as the truthiness tests of the build see it: falsy values are all alike.\<close>

definition usable :: "string option \<Rightarrow> string option" where
  "usable v = (if truthy v then v else None)"

text \<open>The identifiers of the rows that are stored, in input order, repeats included.\<close>

definition valid_ids :: "RawCsvRow list \<Rightarrow> string list" where
  "valid_ids rows = List.map_filter usable_id rows"

text \<open>Each element once, at the place of its first occurrence.\<close>

definition first_occurrences :: "'a list \<Rightarrow> 'a list" where
  "first_occurrences xs = rev (remdups (rev xs))"

text \<open>The last row of the input that is stored under the identifier \<open>c\<close>.\<close>

definition last_row_for :: "RawCsvRow list \<Rightarrow> string \<Rightarrow> RawCsvRow option" where
  "last_row_for rows c = find (\<lambda>r. usable_id r = Some c) (rev rows)"

text \<open>The manager reference of the node stored under \<open>c\<close>, when the node has one.\<close>

definition manager_of :: "Employee js_map \<Rightarrow> string \<Rightarrow> string option" where
  "manager_of m c =
     (case map_of m c of
        None \<Rightarrow> None
      | Some e \<Rightarrow> (case managerId e of
                     None \<Rightarrow> None
                   | Some mid \<Rightarrow> if mid = [] then None else Some mid))"

text \<open>
  What the second pass has done to a map once it has visited the keys \<open>ks\<close>: every entry
  has gained, in the order visited, the keys whose manager reference names it.
\<close>

definition add_children :: "string list \<Rightarrow> Employee js_map \<Rightarrow> Employee js_map" where
  "add_children ks m =
     map (\<lambda>p. (fst p, (snd p)\<lparr>children :=
                 children (snd p) @ filter (\<lambda>c. manager_of m c = Some (fst p)) ks\<rparr>)) m"

text \<open>The warning that visiting key \<open>c\<close> writes, if any.\<close>

definition warn_for :: "Employee js_map \<Rightarrow> string \<Rightarrow> (string \<times> string) list" where
  "warn_for m c =
     (case map_of m c of
        None \<Rightarrow> []
      | Some e \<Rightarrow> (case manager_of m c of
                     None \<Rightarrow> []
                   | Some mid \<Rightarrow> if map_of m mid = None then [(mid, id_emp e)] else []))"

text \<open>
  An employee matches a query in a field: the field's value contains the query as a
  contiguous run of characters once both are put in lower case. An employee without
  \<open>managerId\<close> matches no query in that field.
\<close>

definition field_matches :: "SearchField \<Rightarrow> string \<Rightarrow> Employee \<Rightarrow> bool" where
  "field_matches field q employee =
     (case field of
        Id_field \<Rightarrow> sublist (toLowerCase q) (toLowerCase (id_emp employee))
      | Name_field \<Rightarrow> sublist (toLowerCase q) (toLowerCase (name employee))
      | ManagerId_field \<Rightarrow>
          (case managerId employee of
             None \<Rightarrow> False
           | Some mid \<Rightarrow> sublist (toLowerCase q) (toLowerCase mid)))"


section \<open>Example inputs\<close>

definition root_row :: RawCsvRow where
  "root_row = [''EMPLOYEENUMBER'' \<mapsto> ''1'', ''FIRSTNAME'' \<mapsto> ''Root'']"

definition child_row :: RawCsvRow where
  "child_row = [''EMPLOYEENUMBER'' \<mapsto> ''2'', ''SUPERVISORPARTYID'' \<mapsto> ''1'',
                ''FIRSTNAME'' \<mapsto> ''Child'']"

definition orphan_row :: RawCsvRow where
  "orphan_row = [''EMPLOYEENUMBER'' \<mapsto> ''3'', ''SUPERVISORPARTYID'' \<mapsto> ''99'',
                 ''FIRSTNAME'' \<mapsto> ''Orphan'']"

definition example_rows :: "RawCsvRow list" where
  "example_rows = [root_row, child_row, orphan_row]"

definition loop_row :: RawCsvRow where
  "loop_row = [''EMPLOYEENUMBER'' \<mapsto> ''7'', ''SUPERVISORPARTYID'' \<mapsto> ''7'',
               ''FIRSTNAME'' \<mapsto> ''Loop'']"

definition ann_row :: RawCsvRow where
  "ann_row = [''EMPLOYEENUMBER'' \<mapsto> ''1'', ''SUPERVISORPARTYID'' \<mapsto> ''9'',
              ''FIRSTNAME'' \<mapsto> ''Ann'']"

definition bob_row :: RawCsvRow where
  "bob_row = [''EMPLOYEENUMBER'' \<mapsto> ''2'', ''SUPERVISORPARTYID'' \<mapsto> ''9'',
              ''FIRSTNAME'' \<mapsto> ''Bob'']"

definition anna_row :: RawCsvRow where
  "anna_row = [''EMPLOYEENUMBER'' \<mapsto> ''1'', ''SUPERVISORPARTYID'' \<mapsto> ''9'',
               ''FIRSTNAME'' \<mapsto> ''Anna'']"

definition boss_row :: RawCsvRow where
  "boss_row = [''EMPLOYEENUMBER'' \<mapsto> ''9'', ''FIRSTNAME'' \<mapsto> ''Boss'']"

definition duplicate_rows :: "RawCsvRow list" where
  "duplicate_rows = [ann_row, bob_row, anna_row, boss_row]"

definition no_id_row :: RawCsvRow where
  "no_id_row = [''FIRSTNAME'' \<mapsto> ''Nobody'']"

definition blank_id_row :: RawCsvRow where
  "blank_id_row = [''EMPLOYEE ID'' \<mapsto> [], ''FIRSTNAME'' \<mapsto> ''Ghost'']"

definition blank_fields_row :: RawCsvRow where
  "blank_fields_row = [''EMPLOYEENUMBER'' \<mapsto> ''5'', ''SUPERVISOR ID'' \<mapsto> [],
                       ''FULL NAME'' \<mapsto> []]"

definition initial_state :: App_state where
  "initial_state = \<lparr> employeeMap = None, viewRoot = None, searchQuery = [],
                     searchResults = [], isLoading = False, uploadError = None \<rparr>"

text \<open>The view state after the example rows are uploaded and the node \<open>c\<close> is selected.\<close>

definition view_at :: "string \<Rightarrow> App_state" where
  "view_at c = initial_state\<lparr>employeeMap := Some (buildEmployeeMap example_rows),
                             viewRoot := map_get (buildEmployeeMap example_rows) c\<rparr>"

text \<open>Each element once, at the place of its last occurrence.\<close>

definition last_occurrences :: "'a list \<Rightarrow> 'a list" where
  "last_occurrences xs = remdups xs"

definition ann8_row :: RawCsvRow where
  "ann8_row = [''EMPLOYEENUMBER'' \<mapsto> ''1'', ''SUPERVISORPARTYID'' \<mapsto> ''8'',
               ''FIRSTNAME'' \<mapsto> ''Ann'']"

definition reassigned_rows :: "RawCsvRow list" where
  "reassigned_rows = [ann8_row, bob_row, anna_row, boss_row]"

definition team_rows :: "RawCsvRow list" where
  "team_rows = [boss_row, bob_row, ann_row]"

text \<open>
  The identifiers of the rows that name \<open>mid\<close> as manager, in the order of the rows.
\<close>

definition reporting_rows :: "RawCsvRow list \<Rightarrow> string \<Rightarrow> string list" where
  "reporting_rows rows mid =
     List.map_filter
       (\<lambda>r. if usable (row_managerId r) = Some mid then usable_id r else None) rows"

text \<open>
  The nodes of the built index managed by \<open>mid\<close>, in the order of the rows they are
  built from: a node is built from the last row with its identifier.
\<close>

definition siblings_in_record_order :: "RawCsvRow list \<Rightarrow> string \<Rightarrow> string list" where
  "siblings_in_record_order rows mid =
     filter (\<lambda>c. manager_of (buildEmployeeMap rows) c = Some mid)
       (last_occurrences (valid_ids rows))"

section \<open>The map operations\<close>

lemma map_of_map_set: "map_of (map_set k v m) = (map_of m)(k \<mapsto> v)"
  by (induction m) (auto simp: fun_eq_iff)

lemma keys_map_set:
  "map fst (map_set k v m) = (if k \<in> set (map fst m) then map fst m else map fst m @ [k])"
  by (induction m) auto

lemma distinct_map_set: "distinct (map fst m) \<Longrightarrow> distinct (map fst (map_set k v m))"
  by (simp add: keys_map_set)

lemma map_set_present:
  "k \<in> set (map fst m) \<Longrightarrow> distinct (map fst m) \<Longrightarrow>
   map_set k v m = map (\<lambda>p. if fst p = k then (k, v) else p) m"
proof (induction m)
  case Nil
  then show ?case by simp
next
  case (Cons p ps)
  show ?case
  proof (cases "fst p = k")
    case True
    with Cons.prems have "\<forall>q \<in> set ps. fst q \<noteq> k" by (auto simp: image_iff)
    then have "map (\<lambda>q. if fst q = k then (k, v) else q) ps = ps"
      by (induction ps) auto
    with True show ?thesis by simp
  next
    case False
    with Cons show ?thesis by auto
  qed
qed

lemma keys_add_children: "map fst (add_children ks m) = map fst m"
  by (simp add: add_children_def comp_def)

lemma map_of_map_entries:
  "map_of (map (\<lambda>p. (fst p, f (fst p) (snd p))) m) k = map_option (f k) (map_of m k)"
  by (induction m) auto

lemma map_of_add_children:
  "map_of (add_children ks m) k =
     map_option (\<lambda>e. e\<lparr>children := children e @ filter (\<lambda>c. manager_of m c = Some k) ks\<rparr>)
       (map_of m k)"
  unfolding add_children_def
  by (rule map_of_map_entries
      [of "\<lambda>k e. e\<lparr>children := children e @ filter (\<lambda>c. manager_of m c = Some k) ks\<rparr>"])

lemma manager_of_add_children: "manager_of (add_children ks m) = manager_of m"
  by (auto simp: fun_eq_iff manager_of_def map_of_add_children split: option.splits)

lemma warn_for_add_children: "warn_for (add_children ks m) = warn_for m"
  by (auto simp: fun_eq_iff warn_for_def manager_of_add_children map_of_add_children
      split: option.splits)

lemma add_children_add_children:
  "add_children ks (add_children js m) = add_children (js @ ks) m"
  by (simp add: add_children_def manager_of_add_children[unfolded add_children_def] comp_def)

lemma map_of_eq_None_keys: "(map_of m k = None) = (k \<notin> set (map fst m))"
  by (simp add: map_of_eq_None_iff)

lemma link_step_eq:
  assumes "distinct (map fst m)"
  shows "link_step (m, w) c = (add_children [c] m, w @ warn_for m c)"
proof (cases "manager_of m c")
  case None
  then have "link_step (m, w) c = (m, w)"
    by (auto simp: link_step_def manager_of_def map_get_def split: option.splits if_splits)
  moreover from None have "add_children [c] m = m"
    by (simp add: add_children_def)
  moreover from None have "warn_for m c = []"
    by (simp add: warn_for_def split: option.splits)
  ultimately show ?thesis by simp
next
  case (Some mid)
  then obtain e where e: "map_of m c = Some e" "managerId e = Some mid" "mid \<noteq> []"
    by (auto simp: manager_of_def split: option.splits if_splits)
  show ?thesis
  proof (cases "map_of m mid")
    case None
    then have "\<forall>p \<in> set m. fst p \<noteq> mid"
      by (auto simp: map_of_eq_None_iff)
    with Some have "add_children [c] m = m"
      by (auto simp: add_children_def intro!: map_idI)
    moreover from None e Some have "warn_for m c = [(mid, id_emp e)]"
      by (simp add: warn_for_def)
    moreover from None e have "link_step (m, w) c = (m, w @ [(mid, id_emp e)])"
      by (simp add: link_step_def map_get_def)
    ultimately show ?thesis by simp
  next
    case (Some manager)
    then have mem: "mid \<in> set (map fst m)"
      by (metis map_of_eq_None_keys option.distinct(1))
    from Some e have "link_step (m, w) c =
        (map_set mid (manager\<lparr>children := children manager @ [c]\<rparr>) m, w)"
      by (simp add: link_step_def map_get_def)
    moreover have "map_set mid (manager\<lparr>children := children manager @ [c]\<rparr>) m
        = add_children [c] m"
      unfolding map_set_present[OF mem assms] add_children_def
    proof (rule map_cong[OF refl])
      fix p assume p: "p \<in> set m"
      show "(if fst p = mid then (mid, manager\<lparr>children := children manager @ [c]\<rparr>) else p)
          = (fst p, (snd p)\<lparr>children := children (snd p) @
               filter (\<lambda>c. manager_of m c = Some (fst p)) [c]\<rparr>)"
      proof (cases "fst p = mid")
        case True
        with p assms Some have "snd p = manager"
          by (metis map_of_is_SomeI option.inject prod.collapse)
        with True \<open>manager_of m c = Some mid\<close> show ?thesis by simp
      next
        case False
        with \<open>manager_of m c = Some mid\<close> show ?thesis by auto
      qed
    qed
    moreover from Some \<open>manager_of m c = Some mid\<close> e have "warn_for m c = []"
      by (simp add: warn_for_def)
    ultimately show ?thesis by simp
  qed
qed

lemma foldl_link_step:
  "distinct (map fst m) \<Longrightarrow>
   foldl link_step (m, w) ks = (add_children ks m, w @ concat (map (warn_for m) ks))"
proof (induction ks arbitrary: m w)
  case Nil
  then show ?case by (simp add: add_children_def)
next
  case (Cons c ks)
  have d: "distinct (map fst (add_children [c] m))"
    using Cons.prems by (simp add: keys_add_children)
  show ?case
    using Cons.IH[OF d]
    by (simp add: link_step_eq[OF Cons.prems] add_children_add_children
        warn_for_add_children)
qed


lemma usable_id_nonempty: "usable_id r = Some i \<Longrightarrow> i \<noteq> []"
  by (auto simp: usable_id_def truthy_def split: if_splits option.splits)

lemma usable_id_None: "(usable_id r = None) = (\<not> truthy (row_id r))"
  by (auto simp: usable_id_def truthy_def split: option.splits)

lemma node_step_usable:
  "node_step m r = (case usable_id r of None \<Rightarrow> m | Some i \<Rightarrow> map_set i (new_employee i r) m)"
  by (auto simp: node_step_def usable_id_def truthy_def split: option.splits)

lemma node_pass_snoc: "node_pass (rows @ [r]) = node_step (node_pass rows) r"
  by (simp add: node_pass_def)

lemma valid_ids_snoc:
  "valid_ids (rows @ [r]) = valid_ids rows @ (case usable_id r of None \<Rightarrow> [] | Some i \<Rightarrow> [i])"
  by (auto simp: valid_ids_def List.map_filter_def split: option.splits)

lemma first_occurrences_snoc:
  "first_occurrences (xs @ [x]) =
     (if x \<in> set xs then first_occurrences xs else first_occurrences xs @ [x])"
  by (simp add: first_occurrences_def)

lemma set_first_occurrences: "set (first_occurrences xs) = set xs"
  by (simp add: first_occurrences_def)

lemma distinct_first_occurrences: "distinct (first_occurrences xs)"
  by (simp add: first_occurrences_def)

lemma last_row_for_snoc:
  "last_row_for (rows @ [r]) c = (if usable_id r = Some c then Some r else last_row_for rows c)"
  by (simp add: last_row_for_def)

lemma keys_node_pass: "map fst (node_pass rows) = first_occurrences (valid_ids rows)"
proof (induction rows rule: rev_induct)
  case Nil
  show ?case by (simp add: node_pass_def valid_ids_def first_occurrences_def List.map_filter_def)
next
  case (snoc r rows)
  show ?case
  proof (cases "usable_id r")
    case None
    with snoc show ?thesis
      by (simp add: node_pass_snoc node_step_usable valid_ids_snoc)
  next
    case (Some i)
    with snoc show ?thesis
      using set_first_occurrences[of "valid_ids rows"]
      by (simp add: node_pass_snoc node_step_usable valid_ids_snoc keys_map_set
          first_occurrences_snoc)
  qed
qed

lemma distinct_node_pass: "distinct (map fst (node_pass rows))"
  by (simp add: keys_node_pass distinct_first_occurrences)

lemma map_of_node_pass:
  "map_of (node_pass rows) c = map_option (new_employee c) (last_row_for rows c)"
proof (induction rows rule: rev_induct)
  case Nil
  show ?case by (simp add: node_pass_def last_row_for_def)
next
  case (snoc r rows)
  then show ?case
    by (cases "usable_id r")
      (auto simp: node_pass_snoc node_step_usable last_row_for_snoc map_of_map_set)
qed

lemma last_row_for_usable: "last_row_for rows c = Some r \<Longrightarrow> usable_id r = Some c \<and> r \<in> set rows"
  by (induction rows rule: rev_induct)
    (auto simp: last_row_for_snoc last_row_for_def split: if_splits)

lemma last_row_for_None: "(last_row_for rows c = None) = (c \<notin> set (valid_ids rows))"
  unfolding last_row_for_def valid_ids_def List.map_filter_def
  by (auto simp: find_None_iff image_iff)

lemma manager_of_node_pass:
  "manager_of (node_pass rows) c =
     (case last_row_for rows c of
        None \<Rightarrow> None
      | Some r \<Rightarrow> if truthy (row_managerId r) then row_managerId r else None)"
  by (auto simp: manager_of_def map_of_node_pass new_employee_def truthy_def
      split: option.splits)

lemma build_eq:
  "buildEmployeeMap rows = add_children (map fst (node_pass rows)) (node_pass rows)"
  by (simp add: buildEmployeeMap_def link_pass_def map_keys_def
      foldl_link_step[OF distinct_node_pass])

lemma warnings_eq:
  "build_warnings rows = concat (map (warn_for (node_pass rows)) (map fst (node_pass rows)))"
  by (simp add: build_warnings_def link_pass_def map_keys_def
      foldl_link_step[OF distinct_node_pass])

lemma keys_build: "map_keys (buildEmployeeMap rows) = first_occurrences (valid_ids rows)"
  by (simp add: map_keys_def build_eq keys_add_children keys_node_pass)

lemma manager_of_build: "manager_of (buildEmployeeMap rows) = manager_of (node_pass rows)"
  by (simp add: build_eq manager_of_add_children)

lemma map_of_build:
  "map_of (buildEmployeeMap rows) c =
     map_option (\<lambda>r. (new_employee c r)\<lparr>children :=
         filter (\<lambda>c'. manager_of (buildEmployeeMap rows) c' = Some c)
           (first_occurrences (valid_ids rows))\<rparr>)
       (last_row_for rows c)"
  by (simp add: manager_of_build)
    (simp add: build_eq map_of_add_children map_of_node_pass keys_node_pass
      option.map_comp comp_def new_employee_def)

lemma map_has_build: "map_has (buildEmployeeMap rows) c = (c \<in> set (valid_ids rows))"
  by (simp add: map_has_def map_of_build last_row_for_None)

lemma warn_for_node_pass:
  "warn_for (node_pass rows) c =
     (case manager_of (node_pass rows) c of
        None \<Rightarrow> []
      | Some mid \<Rightarrow> if map_has (node_pass rows) mid then [] else [(mid, c)])"
  by (auto simp: warn_for_def map_has_def map_of_node_pass new_employee_def manager_of_def
      split: option.splits)

lemma map_snd_concat_filter:
  "(\<And>k. k \<in> set ks \<Longrightarrow> f k = (if P k then [(g k, k)] else [])) \<Longrightarrow>
   map snd (concat (map f ks)) = filter P ks"
  by (induction ks) auto

lemma map_has_node_pass: "map_has (node_pass rows) c = (c \<in> set (valid_ids rows))"
  by (simp add: map_has_def map_of_node_pass last_row_for_None)

lemma unreferenced_ids_eq:
  "unreferenced_ids rows =
     filter (\<lambda>c. case manager_of (buildEmployeeMap rows) c of
                   None \<Rightarrow> False
                 | Some mid \<Rightarrow> \<not> map_has (buildEmployeeMap rows) mid)
       (map_keys (buildEmployeeMap rows))"
  unfolding unreferenced_ids_def warnings_eq keys_build manager_of_build map_has_build
    keys_node_pass
  by (rule map_snd_concat_filter[where g = "\<lambda>k. the (manager_of (node_pass rows) k)"])
    (auto simp: warn_for_node_pass map_has_node_pass split: option.splits)

lemma children_build:
  assumes "(k, e) \<in> set (buildEmployeeMap rows)"
  shows "children e = filter (\<lambda>c. manager_of (buildEmployeeMap rows) c = Some k)
                        (first_occurrences (valid_ids rows))"
    and "id_emp e = k"
proof -
  have d: "distinct (map fst (buildEmployeeMap rows))"
    using keys_build[of rows] by (simp add: map_keys_def distinct_first_occurrences)
  from assms d have "map_of (buildEmployeeMap rows) k = Some e" by simp
  then show "children e = filter (\<lambda>c. manager_of (buildEmployeeMap rows) c = Some k)
                        (first_occurrences (valid_ids rows))" and "id_emp e = k"
    by (auto simp: map_of_build new_employee_def)
qed

lemma manager_of_build_row:
  "manager_of (buildEmployeeMap rows) c =
     (case last_row_for rows c of
        None \<Rightarrow> None
      | Some r \<Rightarrow> if truthy (row_managerId r) then row_managerId r else None)"
  by (simp add: manager_of_build manager_of_node_pass)

lemma last_row_for_in_ids: "last_row_for rows c = Some r \<Longrightarrow> c \<in> set (valid_ids rows)"
  using last_row_for_None[of rows c] by auto

lemma count_list_filter_distinct:
  "distinct xs \<Longrightarrow> count_list (filter P xs) c = (if c \<in> set xs \<and> P c then 1 else 0)"
  by (induction xs) auto

lemma count_list_distinct: "distinct xs \<Longrightarrow> count_list xs c = (if c \<in> set xs then 1 else 0)"
  by (induction xs) auto

text \<open>Unfolding sets for evaluating the program on the example inputs.\<close>

lemmas build_eval = buildEmployeeMap_def build_warnings_def unreferenced_ids_def link_pass_def
  node_pass_def node_step_def link_step_def map_keys_def map_values_def map_get_def map_has_def
  new_employee_def row_id_def row_managerId_def row_name_def js_or_def truthy_def
  usable_id_def last_row_for_def valid_ids_def List.map_filter_def first_occurrences_def
  last_occurrences_def

lemmas example_eval = root_row_def child_row_def orphan_row_def example_rows_def loop_row_def
  ann_row_def bob_row_def anna_row_def boss_row_def duplicate_rows_def no_id_row_def
  blank_id_row_def blank_fields_row_def initial_state_def ann8_row_def reassigned_rows_def
  team_rows_def

lemmas row_eval = row_id_def row_managerId_def row_name_def js_or_def truthy_def usable_id_def

lemma usable_id_examples:
  "usable_id ann_row = Some ''1''" "usable_id bob_row = Some ''2''"
  "usable_id anna_row = Some ''1''" "usable_id boss_row = Some ''9''"
  "usable_id blank_fields_row = Some ''5''" "usable_id blank_id_row = None"
  "usable_id no_id_row = None"
  by (simp_all add: row_eval example_eval)

section \<open>Nodes whose manager is not in the index\<close>

text \<open>
  Claim C1. Let \<open>r\<close> be the row that decides the node \<open>c\<close>, with a manager reference \<open>mid\<close>
  that is no key of the built index. Then the index holds the node under \<open>c\<close> with
  \<open>managerId = mid\<close>, the value the row gave; no node of the index has \<open>c\<close> among its
  children; \<open>c\<close> is among the ids that the build reports as unreferenced, and the node
  passes the root-candidate test of \<open>handleUpload\<close>; and the upload does not throw: it
  returns the index.
\<close>

theorem unresolved_manager_retained:
  assumes "last_row_for rows c = Some r"
    and "row_managerId r = Some mid" and "mid \<noteq> []"
    and "\<not> map_has (buildEmployeeMap rows) mid"
  shows "(\<exists>e. map_get (buildEmployeeMap rows) c = Some e \<and> id_emp e = c
              \<and> managerId e = Some mid \<and> is_root_candidate (buildEmployeeMap rows) e)
       \<and> (\<forall>p \<in> set (buildEmployeeMap rows). c \<notin> set (children (snd p)))
       \<and> c \<in> set (unreferenced_ids rows)
       \<and> handleUpload_try rows = Inr (buildEmployeeMap rows, default_root (buildEmployeeMap rows))"
proof -
  let ?idx = "buildEmployeeMap rows"
  from assms have mgr: "manager_of ?idx c = Some mid"
    by (simp add: manager_of_build_row truthy_def)
  have "\<exists>e. map_get ?idx c = Some e \<and> id_emp e = c \<and> managerId e = Some mid
          \<and> is_root_candidate ?idx e"
    using assms
    by (simp add: map_get_def map_of_build new_employee_def truthy_def is_root_candidate_def)
  moreover have "\<forall>p \<in> set ?idx. c \<notin> set (children (snd p))"
  proof
    fix p assume p: "p \<in> set ?idx"
    then have "(fst p, snd p) \<in> set ?idx" by simp
    from children_build(1)[OF this] have
      "c \<in> set (children (snd p)) \<Longrightarrow> manager_of ?idx c = Some (fst p)" by simp
    moreover from p have "map_has ?idx (fst p)"
      by (auto simp: map_has_def map_of_eq_None_keys)
    ultimately show "c \<notin> set (children (snd p))"
      using mgr assms(4) by auto
  qed
  moreover have "c \<in> set (unreferenced_ids rows)"
    using mgr assms(1,4) last_row_for_in_ids[OF assms(1)]
    by (simp add: unreferenced_ids_eq keys_build set_first_occurrences)
  moreover from last_row_for_usable[OF assms(1)] have "rows \<noteq> []" by auto
  then have "handleUpload_try rows = Inr (?idx, default_root ?idx)"
    by (simp add: handleUpload_try_def Let_def)
  ultimately show ?thesis by blast
qed


theorem unresolved_manager_retained_witness:
  "last_row_for example_rows ''3'' = Some orphan_row
   \<and> row_managerId orphan_row = Some ''99''
   \<and> \<not> map_has (buildEmployeeMap example_rows) ''99''
   \<and> (\<exists>e. map_get (buildEmployeeMap example_rows) ''3'' = Some e \<and> id_emp e = ''3''
          \<and> managerId e = Some ''99'' \<and> is_root_candidate (buildEmployeeMap example_rows) e)
   \<and> list_all (\<lambda>p. ''3'' \<notin> set (children (snd p))) (buildEmployeeMap example_rows)
   \<and> ''3'' \<in> set (unreferenced_ids example_rows)
   \<and> handleUpload_try example_rows =
       Inr (buildEmployeeMap example_rows, default_root (buildEmployeeMap example_rows))"
proof -
  have h1: "last_row_for example_rows ''3'' = Some orphan_row"
    by (simp add: build_eval example_eval)
  have h2: "row_managerId orphan_row = Some ''99''"
    by (simp add: build_eval example_eval)
  have h3: "''99'' \<noteq> []" by simp
  have h4: "\<not> map_has (buildEmployeeMap example_rows) ''99''"
    by (simp add: build_eval example_eval)
  show ?thesis
    unfolding list_all_iff
    using unresolved_manager_retained[OF h1 h2 h3 h4] h1 h2 h4 by blast
qed

section \<open>Children lists\<close>

lemma first_occurrences_distinct: "distinct xs \<Longrightarrow> first_occurrences xs = xs"
  by (simp add: first_occurrences_def distinct_remdups_id)

lemma reassigned_index:
  "map_get (buildEmployeeMap reassigned_rows) ''2'' =
     Some \<lparr>id_emp = ''2'', managerId = Some ''9'', name = ''Bob'', children = []\<rparr>"
  "map_get (buildEmployeeMap reassigned_rows) ''9'' =
     Some \<lparr>id_emp = ''9'', managerId = None, name = ''Boss'', children = [''1'', ''2'']\<rparr>"
  "map_get (buildEmployeeMap team_rows) ''1'' =
     Some \<lparr>id_emp = ''1'', managerId = Some ''9'', name = ''Ann'', children = []\<rparr>"
  "map_get (buildEmployeeMap team_rows) ''9'' =
     Some \<lparr>id_emp = ''9'', managerId = None, name = ''Boss'', children = [''2'', ''1'']\<rparr>"
  "valid_ids team_rows = [''9'', ''2'', ''1'']"
  by code_simp+

text \<open>
  Claim C5, as stated, fails on the order of siblings. In \<open>reassigned_rows\<close> the id \<open>1\<close>
  occurs twice: the first row gives it the manager \<open>8\<close>, the third row the manager \<open>9\<close>,
  and the row of \<open>2\<close>, also managed by \<open>9\<close>, stands between them. The rows that name \<open>9\<close>
  as manager arrive as \<open>2\<close> then \<open>1\<close>, and the nodes \<open>1\<close> and \<open>2\<close> of the index are both
  managed by \<open>9\<close>; yet the children of \<open>9\<close> are \<open>1\<close> then \<open>2\<close>.
\<close>

theorem sibling_input_order_counterexample:
  "map_option children (map_get (buildEmployeeMap reassigned_rows) ''9'') = Some [''1'', ''2'']
   \<and> reporting_rows reassigned_rows ''9'' = [''2'', ''1'']
   \<and> siblings_in_record_order reassigned_rows ''9'' = [''2'', ''1'']
   \<and> map_option managerId (map_get (buildEmployeeMap reassigned_rows) ''1'') = Some (Some ''9'')
   \<and> map_option managerId (map_get (buildEmployeeMap reassigned_rows) ''2'') = Some (Some ''9'')"
  by code_simp

text \<open>
  Claim C5, amended. A node \<open>c\<close> whose manager reference \<open>mid\<close> is a key of the built index
  occurs exactly once among the children of the node stored under \<open>mid\<close> and among the
  children of no other entry; those children are the nodes managed by \<open>mid\<close> in the order
  in which their identifiers first appear in the input, which is the order of the rows
  when no identifier is repeated; and every child of every entry is a node of the index
  whose \<open>managerId\<close> is the id of that entry.
\<close>

theorem children_exclusive_first_occurrence_order:
  assumes "map_get (buildEmployeeMap rows) c = Some e"
    and "managerId e = Some mid"
    and "map_get (buildEmployeeMap rows) mid = Some manager"
  shows "count_list (children manager) c = 1
       \<and> (\<forall>p \<in> set (buildEmployeeMap rows). fst p \<noteq> mid \<longrightarrow> c \<notin> set (children (snd p)))
       \<and> children manager =
           filter (\<lambda>c'. manager_of (buildEmployeeMap rows) c' = Some mid)
             (first_occurrences (valid_ids rows))
       \<and> (distinct (valid_ids rows) \<longrightarrow>
            children manager =
              filter (\<lambda>c'. manager_of (buildEmployeeMap rows) c' = Some mid) (valid_ids rows))
       \<and> (\<forall>p \<in> set (buildEmployeeMap rows). \<forall>c' \<in> set (children (snd p)).
            \<exists>e'. map_get (buildEmployeeMap rows) c' = Some e'
               \<and> managerId e' = Some (id_emp (snd p)))"
proof -
  let ?idx = "buildEmployeeMap rows"
  let ?keys = "first_occurrences (valid_ids rows)"
  from assms(1) have c_in: "c \<in> set ?keys"
    by (auto simp: map_get_def map_of_build set_first_occurrences dest: last_row_for_in_ids)
  from assms(3) have mid_ne: "mid \<noteq> []"
    by (auto simp: map_get_def map_of_build dest!: last_row_for_usable usable_id_nonempty)
  with assms(1,2) have mgr: "manager_of ?idx c = Some mid"
    by (simp add: manager_of_def map_get_def)
  from assms(3) have "(mid, manager) \<in> set ?idx"
    by (simp add: map_get_def map_of_SomeD)
  from children_build(1)[OF this] have ch:
    "children manager = filter (\<lambda>c'. manager_of ?idx c' = Some mid) ?keys" .
  then have ch_distinct: "distinct (valid_ids rows) \<longrightarrow>
      children manager = filter (\<lambda>c'. manager_of ?idx c' = Some mid) (valid_ids rows)"
    by (simp add: first_occurrences_distinct)
  have "count_list (children manager) c = 1"
    using c_in mgr by (simp add: ch count_list_filter_distinct distinct_first_occurrences)
  moreover have "\<forall>p \<in> set ?idx. fst p \<noteq> mid \<longrightarrow> c \<notin> set (children (snd p))"
  proof (intro ballI impI)
    fix p assume p: "p \<in> set ?idx" and ne: "fst p \<noteq> mid"
    from p have "(fst p, snd p) \<in> set ?idx" by simp
    from children_build(1)[OF this] mgr ne show "c \<notin> set (children (snd p))" by auto
  qed
  moreover have "\<forall>p \<in> set ?idx. \<forall>c' \<in> set (children (snd p)).
      \<exists>e'. map_get ?idx c' = Some e' \<and> managerId e' = Some (id_emp (snd p))"
  proof (intro ballI)
    fix p c' assume p: "p \<in> set ?idx" and c': "c' \<in> set (children (snd p))"
    from p have q: "(fst p, snd p) \<in> set ?idx" by simp
    from children_build[OF q] c' have "manager_of ?idx c' = Some (id_emp (snd p))" by auto
    then show "\<exists>e'. map_get ?idx c' = Some e' \<and> managerId e' = Some (id_emp (snd p))"
      by (auto simp: manager_of_def map_get_def split: option.splits if_splits)
  qed
  ultimately show ?thesis using ch ch_distinct by blast
qed

theorem children_exclusive_first_occurrence_order_witness:
  "(\<exists>e manager.
       map_get (buildEmployeeMap reassigned_rows) ''2'' = Some e
     \<and> managerId e = Some ''9''
     \<and> map_get (buildEmployeeMap reassigned_rows) ''9'' = Some manager
     \<and> children manager = [''1'', ''2'']
     \<and> count_list (children manager) ''2'' = 1
     \<and> (\<forall>p \<in> set (buildEmployeeMap reassigned_rows).
           fst p \<noteq> ''9'' \<longrightarrow> ''2'' \<notin> set (children (snd p)))
     \<and> children manager =
          filter (\<lambda>c'. manager_of (buildEmployeeMap reassigned_rows) c' = Some ''9'')
            (first_occurrences (valid_ids reassigned_rows))
     \<and> (\<forall>p \<in> set (buildEmployeeMap reassigned_rows). \<forall>c' \<in> set (children (snd p)).
           \<exists>e'. map_get (buildEmployeeMap reassigned_rows) c' = Some e'
              \<and> managerId e' = Some (id_emp (snd p))))
   \<and> distinct (valid_ids team_rows)
   \<and> (\<exists>e manager.
       map_get (buildEmployeeMap team_rows) ''1'' = Some e
     \<and> managerId e = Some ''9''
     \<and> map_get (buildEmployeeMap team_rows) ''9'' = Some manager
     \<and> children manager = [''2'', ''1'']
     \<and> children manager =
          filter (\<lambda>c'. manager_of (buildEmployeeMap team_rows) c' = Some ''9'')
            (valid_ids team_rows))"
proof -
  let ?bob = "\<lparr>id_emp = ''2'', managerId = Some ''9'', name = ''Bob'', children = []\<rparr>"
  let ?boss = "\<lparr>id_emp = ''9'', managerId = None, name = ''Boss'',
                children = [''1'', ''2'']\<rparr>"
  let ?ann = "\<lparr>id_emp = ''1'', managerId = Some ''9'', name = ''Ann'', children = []\<rparr>"
  let ?boss' = "\<lparr>id_emp = ''9'', managerId = None, name = ''Boss'',
                 children = [''2'', ''1'']\<rparr>"
  have m: "managerId ?bob = Some ''9''" "managerId ?ann = Some ''9''" by simp_all
  have c: "children ?boss = [''1'', ''2'']" "children ?boss' = [''2'', ''1'']" by simp_all
  have d: "distinct (valid_ids team_rows)" by (simp add: reassigned_index(5))
  note a = children_exclusive_first_occurrence_order
    [OF reassigned_index(1) m(1) reassigned_index(2)]
  note b = children_exclusive_first_occurrence_order
    [OF reassigned_index(3) m(2) reassigned_index(4)]
  have first: "\<exists>e manager.
       map_get (buildEmployeeMap reassigned_rows) ''2'' = Some e
     \<and> managerId e = Some ''9''
     \<and> map_get (buildEmployeeMap reassigned_rows) ''9'' = Some manager
     \<and> children manager = [''1'', ''2'']
     \<and> count_list (children manager) ''2'' = 1
     \<and> (\<forall>p \<in> set (buildEmployeeMap reassigned_rows).
           fst p \<noteq> ''9'' \<longrightarrow> ''2'' \<notin> set (children (snd p)))
     \<and> children manager =
          filter (\<lambda>c'. manager_of (buildEmployeeMap reassigned_rows) c' = Some ''9'')
            (first_occurrences (valid_ids reassigned_rows))
     \<and> (\<forall>p \<in> set (buildEmployeeMap reassigned_rows). \<forall>c' \<in> set (children (snd p)).
           \<exists>e'. map_get (buildEmployeeMap reassigned_rows) c' = Some e'
              \<and> managerId e' = Some (id_emp (snd p)))"
    using a reassigned_index(1,2) m(1) c(1) by blast
  have second: "\<exists>e manager.
       map_get (buildEmployeeMap team_rows) ''1'' = Some e
     \<and> managerId e = Some ''9''
     \<and> map_get (buildEmployeeMap team_rows) ''9'' = Some manager
     \<and> children manager = [''2'', ''1'']
     \<and> children manager =
          filter (\<lambda>c'. manager_of (buildEmployeeMap team_rows) c' = Some ''9'')
            (valid_ids team_rows)"
    using b d reassigned_index(3,4) m(2) c(2) by blast
  from first d second show ?thesis by blast
qed

section \<open>A node that names itself as manager\<close>

text \<open>
  Claim C9. If the row that decides the node \<open>c\<close> gives \<open>c\<close> itself as manager, the built
  node has \<open>c\<close> once among its own children, no warning is logged for it, and it fails
  the root-candidate test.
\<close>

theorem self_manager_is_own_child:
  assumes "last_row_for rows c = Some r" and "row_managerId r = Some c"
  shows "\<exists>e. map_get (buildEmployeeMap rows) c = Some e
           \<and> managerId e = Some c
           \<and> count_list (children e) c = 1
           \<and> c \<notin> set (unreferenced_ids rows)
           \<and> \<not> is_root_candidate (buildEmployeeMap rows) e"
proof -
  let ?idx = "buildEmployeeMap rows"
  from last_row_for_usable[OF assms(1)] have ne: "c \<noteq> []"
    by (auto dest: usable_id_nonempty)
  from assms ne have mgr: "manager_of ?idx c = Some c"
    by (simp add: manager_of_build_row truthy_def)
  from assms(1) have has: "map_has ?idx c"
    by (simp add: map_has_build last_row_for_in_ids)
  from assms(1) obtain e where e: "map_get ?idx c = Some e"
    by (simp add: map_get_def map_of_build)
  with assms ne have m: "managerId e = Some c"
    by (auto simp: map_get_def map_of_build new_employee_def truthy_def)
  from e have "(c, e) \<in> set ?idx" by (simp add: map_get_def map_of_SomeD)
  from children_build(1)[OF this] mgr assms(1) have "count_list (children e) c = 1"
    by (simp add: count_list_filter_distinct distinct_first_occurrences
        set_first_occurrences last_row_for_in_ids)
  moreover have "c \<notin> set (unreferenced_ids rows)"
    using mgr has by (simp add: unreferenced_ids_eq)
  moreover have "\<not> is_root_candidate ?idx e"
    using m has ne by (simp add: is_root_candidate_def truthy_def)
  ultimately show ?thesis using e m by blast
qed

theorem self_manager_is_own_child_witness:
  "last_row_for [loop_row] ''7'' = Some loop_row
   \<and> row_managerId loop_row = Some ''7''
   \<and> (\<exists>e. map_get (buildEmployeeMap [loop_row]) ''7'' = Some e
         \<and> managerId e = Some ''7''
         \<and> count_list (children e) ''7'' = 1
         \<and> ''7'' \<notin> set (unreferenced_ids [loop_row])
         \<and> \<not> is_root_candidate (buildEmployeeMap [loop_row]) e)"
proof -
  have h1: "last_row_for [loop_row] ''7'' = Some loop_row"
    by (simp add: build_eval example_eval)
  have h2: "row_managerId loop_row = Some ''7''"
    by (simp add: build_eval example_eval)
  show ?thesis
    using self_manager_is_own_child[OF h1 h2] h1 h2 by blast
qed

section \<open>Repeated identifiers\<close>

text \<open>
  Claim C2, as stated, fails. In \<open>duplicate_rows\<close> the id \<open>1\<close> occurs in the first and in
  the third row, with the id \<open>2\<close> between them. The built node \<open>1\<close> has the name of the
  third row, but it is iterated, and listed among the children of \<open>9\<close>, before node \<open>2\<close>:
  at the place of its first occurrence, not of its last.
\<close>

theorem duplicate_id_position_counterexample:
  "map_keys (buildEmployeeMap duplicate_rows) \<noteq> last_occurrences (valid_ids duplicate_rows)
   \<and> map_keys (buildEmployeeMap duplicate_rows) = [''1'', ''2'', ''9'']
   \<and> last_occurrences (valid_ids duplicate_rows) = [''2'', ''1'', ''9'']
   \<and> map_option children (map_get (buildEmployeeMap duplicate_rows) ''9'') = Some [''1'', ''2'']
   \<and> map_option name (map_get (buildEmployeeMap duplicate_rows) ''1'') = Some ''Anna''"
  by code_simp

text \<open>
  Claim C2, amended. If \<open>r\<close> is the last row stored under the id \<open>c\<close>, the built index has
  exactly one entry for \<open>c\<close>, and all its fields but \<open>children\<close> are those of the object made
  from \<open>r\<close> alone. The keys of the index stand in the order in which the identifiers first
  occur in the input, and every children list follows that order.
\<close>

theorem duplicate_id_last_fields_first_position:
  assumes "last_row_for rows c = Some r"
  shows "count_list (map_keys (buildEmployeeMap rows)) c = 1
       \<and> (\<exists>e. map_get (buildEmployeeMap rows) c = Some e
              \<and> e = (new_employee c r)\<lparr>children := children e\<rparr>)
       \<and> map_keys (buildEmployeeMap rows) = first_occurrences (valid_ids rows)
       \<and> (\<forall>p \<in> set (buildEmployeeMap rows).
            children (snd p) =
              filter (\<lambda>c'. manager_of (buildEmployeeMap rows) c' = Some (fst p))
                (first_occurrences (valid_ids rows)))"
proof -
  have "count_list (map_keys (buildEmployeeMap rows)) c = 1"
    using last_row_for_in_ids[OF assms]
    by (simp add: keys_build count_list_distinct distinct_first_occurrences
        set_first_occurrences)
  moreover have "\<exists>e. map_get (buildEmployeeMap rows) c = Some e
              \<and> e = (new_employee c r)\<lparr>children := children e\<rparr>"
    using assms by (simp add: map_get_def map_of_build)
  moreover have "\<forall>p \<in> set (buildEmployeeMap rows).
            children (snd p) =
              filter (\<lambda>c'. manager_of (buildEmployeeMap rows) c' = Some (fst p))
                (first_occurrences (valid_ids rows))"
  proof
    fix p assume "p \<in> set (buildEmployeeMap rows)"
    then have "(fst p, snd p) \<in> set (buildEmployeeMap rows)" by simp
    from children_build(1)[OF this] show "children (snd p) =
              filter (\<lambda>c'. manager_of (buildEmployeeMap rows) c' = Some (fst p))
                (first_occurrences (valid_ids rows))" .
  qed
  ultimately show ?thesis by (simp add: keys_build)
qed

theorem duplicate_id_last_fields_first_position_witness:
  "last_row_for duplicate_rows ''1'' = Some anna_row
   \<and> count_list (map_keys (buildEmployeeMap duplicate_rows)) ''1'' = 1
   \<and> (\<exists>e. map_get (buildEmployeeMap duplicate_rows) ''1'' = Some e
          \<and> e = (new_employee ''1'' anna_row)\<lparr>children := children e\<rparr>)
   \<and> map_keys (buildEmployeeMap duplicate_rows) = first_occurrences (valid_ids duplicate_rows)
   \<and> list_all (\<lambda>p. children (snd p) =
              filter (\<lambda>c'. manager_of (buildEmployeeMap duplicate_rows) c' = Some (fst p))
                (first_occurrences (valid_ids duplicate_rows)))
        (buildEmployeeMap duplicate_rows)"
proof -
  have h: "last_row_for duplicate_rows ''1'' = Some anna_row"
    by (simp add: last_row_for_def duplicate_rows_def usable_id_examples)
  show ?thesis
    unfolding list_all_iff using duplicate_id_last_fields_first_position[OF h] h by blast
qed

lemma usable_js_or:
  "usable a = usable a' \<Longrightarrow> usable b = usable b' \<Longrightarrow> usable (js_or a b) = usable (js_or a' b')"
  by (auto simp: usable_def js_or_def truthy_def split: if_splits)

lemma usable_blank: "usable ((row(k \<mapsto> [])) a) = usable ((row(k := None)) a)"
  by (simp add: usable_def truthy_def)

lemma new_employee_usable_fields:
  assumes "usable (row_managerId r) = usable (row_managerId r')"
    and "usable (row_name r) = usable (row_name r')"
  shows "new_employee i r = new_employee i r'"
proof -
  from assms(1) have "(if truthy (row_managerId r) then row_managerId r else None) =
      (if truthy (row_managerId r') then row_managerId r' else None)"
    by (simp only: usable_def)
  moreover from assms(2) have
    "js_or (row_name r) (Some ''Unknown'') = js_or (row_name r') (Some ''Unknown'')"
    unfolding usable_def js_or_def by (metis truthy_def option.simps(4))
  ultimately show ?thesis
    by (simp only: new_employee_def)
qed

lemma node_step_usable_fields:
  assumes "usable (row_id r) = usable (row_id r')"
    and "usable (row_managerId r) = usable (row_managerId r')"
    and "usable (row_name r) = usable (row_name r')"
  shows "node_step m r = node_step m r'"
proof -
  from assms(1) have "usable_id r = usable_id r'"
    by (simp only: usable_id_def usable_def)
  then show ?thesis
    by (simp only: node_step_usable new_employee_usable_fields[OF assms(2,3)])
qed

lemma node_step_blank:
  "node_step m (row(k \<mapsto> [])) = node_step m (row(k := None))"
  unfolding row_id_def row_managerId_def row_name_def
  by (rule node_step_usable_fields[unfolded row_id_def row_managerId_def row_name_def])
    (intro usable_js_or usable_blank)+

lemma node_pass_append_Cons:
  "node_pass (xs @ r # ys) = foldl node_step (node_step (node_pass xs) r) ys"
  by (simp add: node_pass_def)

lemma node_pass_append: "node_pass (xs @ ys) = foldl node_step (node_pass xs) ys"
  by (simp add: node_pass_def)

lemma build_cong: "node_pass rows = node_pass rows' \<Longrightarrow> buildEmployeeMap rows = buildEmployeeMap rows'"
  by (simp add: buildEmployeeMap_def)

lemma not_truthy_iff: "(\<not> truthy v) = (v = None \<or> v = Some [])"
  by (auto simp: truthy_def split: option.splits)

lemma row_fields_examples:
  "row_id blank_id_row = Some []" "row_managerId blank_fields_row = Some []"
  "row_name blank_fields_row = Some []" "row_id no_id_row = None"
  by (simp_all add: row_eval example_eval)

section \<open>Empty strings in a row\<close>

text \<open>
  Claim C10. A row with an empty string in a column builds the same index as the row
  without that column. A row whose identifier resolves to nothing or to the empty string
  leaves no trace in the index. If the row that decides a node has no manager value or
  an empty one, the node has \<open>managerId = null\<close>, passes the root-candidate test and is
  not warned about; if it has no name or an empty one, the node's name is \<open>Unknown\<close>.
\<close>

theorem blank_fields_as_absent:
  "buildEmployeeMap (xs @ row(k \<mapsto> []) # ys) = buildEmployeeMap (xs @ row(k := None) # ys)
   \<and> (row_id r = None \<or> row_id r = Some [] \<longrightarrow>
        buildEmployeeMap (xs @ r # ys) = buildEmployeeMap (xs @ ys))
   \<and> (last_row_for rows c = Some r'
        \<and> (row_managerId r' = None \<or> row_managerId r' = Some []) \<longrightarrow>
        (\<exists>e. map_get (buildEmployeeMap rows) c = Some e \<and> managerId e = None
            \<and> is_root_candidate (buildEmployeeMap rows) e
            \<and> c \<notin> set (unreferenced_ids rows)))
   \<and> (last_row_for rows c = Some r'
        \<and> (row_name r' = None \<or> row_name r' = Some []) \<longrightarrow>
        (\<exists>e. map_get (buildEmployeeMap rows) c = Some e \<and> name e = ''Unknown''))"
proof (intro conjI impI)
  show "buildEmployeeMap (xs @ row(k \<mapsto> []) # ys) = buildEmployeeMap (xs @ row(k := None) # ys)"
    by (rule build_cong) (simp only: node_pass_append_Cons node_step_blank)
next
  assume "row_id r = None \<or> row_id r = Some []"
  then have "node_step (node_pass xs) r = node_pass xs"
    by (auto simp: node_step_def)
  then show "buildEmployeeMap (xs @ r # ys) = buildEmployeeMap (xs @ ys)"
    by (intro build_cong) (simp add: node_pass_append_Cons node_pass_append)
next
  assume a: "last_row_for rows c = Some r'
        \<and> (row_managerId r' = None \<or> row_managerId r' = Some [])"
  then have nt: "\<not> truthy (row_managerId r')" by (simp add: not_truthy_iff)
  with a have mgr: "manager_of (buildEmployeeMap rows) c = None"
    by (simp add: manager_of_build_row)
  from a nt have "\<exists>e. map_get (buildEmployeeMap rows) c = Some e \<and> managerId e = None
            \<and> is_root_candidate (buildEmployeeMap rows) e"
    by (simp add: map_get_def map_of_build new_employee_def is_root_candidate_def truthy_def)
  moreover from mgr have "c \<notin> set (unreferenced_ids rows)"
    by (simp add: unreferenced_ids_eq)
  ultimately show "\<exists>e. map_get (buildEmployeeMap rows) c = Some e \<and> managerId e = None
            \<and> is_root_candidate (buildEmployeeMap rows) e
            \<and> c \<notin> set (unreferenced_ids rows)" by blast
next
  assume a: "last_row_for rows c = Some r'
        \<and> (row_name r' = None \<or> row_name r' = Some [])"
  then have "\<not> truthy (row_name r')" by (simp add: not_truthy_iff)
  with a show "\<exists>e. map_get (buildEmployeeMap rows) c = Some e \<and> name e = ''Unknown''"
    by (simp add: map_get_def map_of_build new_employee_def js_or_def)
qed

theorem blank_fields_as_absent_witness:
  "buildEmployeeMap ([] @ root_row(''FIRSTNAME'' \<mapsto> []) # [child_row]) =
     buildEmployeeMap ([] @ root_row(''FIRSTNAME'' := None) # [child_row])
   \<and> row_id blank_id_row = Some []
   \<and> buildEmployeeMap ([root_row] @ blank_id_row # [child_row]) =
       buildEmployeeMap ([root_row] @ [child_row])
   \<and> last_row_for [blank_fields_row] ''5'' = Some blank_fields_row
   \<and> row_managerId blank_fields_row = Some []
   \<and> row_name blank_fields_row = Some []
   \<and> (\<exists>e. map_get (buildEmployeeMap [blank_fields_row]) ''5'' = Some e \<and> managerId e = None
         \<and> is_root_candidate (buildEmployeeMap [blank_fields_row]) e
         \<and> ''5'' \<notin> set (unreferenced_ids [blank_fields_row]))
   \<and> (\<exists>e. map_get (buildEmployeeMap [blank_fields_row]) ''5'' = Some e \<and> name e = ''Unknown'')"
proof -
  have h: "last_row_for [blank_fields_row] ''5'' = Some blank_fields_row"
    by (simp add: last_row_for_def usable_id_examples)
  note t = blank_fields_as_absent[of "[]" root_row "''FIRSTNAME''" "[child_row]" blank_id_row
      "[blank_fields_row]" "''5''" blank_fields_row]
    blank_fields_as_absent[of "[root_row]" root_row "''FIRSTNAME''" "[child_row]" blank_id_row
      "[blank_fields_row]" "''5''" blank_fields_row]
  show ?thesis
    using t h row_fields_examples(1,2,3) by blast
qed

lemma build_no_ids:
  assumes "\<forall>r \<in> set rows. \<not> truthy (row_id r)"
  shows "buildEmployeeMap rows = []"
proof -
  from assms have "valid_ids rows = []"
    by (induction rows) (simp_all add: valid_ids_def List.map_filter_def usable_id_def)
  then have "map_keys (buildEmployeeMap rows) = []"
    by (simp add: keys_build first_occurrences_def)
  then show ?thesis by (simp add: map_keys_def)
qed

lemma default_root_Nil: "default_root [] = None"
  by (simp add: default_root_def map_values_def)

section \<open>Uploads without usable rows\<close>

text \<open>
  Claim C3, as stated, fails. A single row without any identifier column is a non-empty
  input none of whose rows yields an identifier. The upload does not throw: it returns
  an empty map, stores it as the index, and sets no error.
\<close>

theorem no_identifier_upload_counterexample:
  "[no_id_row] \<noteq> []
   \<and> \<not> truthy (row_id no_id_row)
   \<and> handleUpload_try [no_id_row] = Inr ([], None)
   \<and> employeeMap (handleUpload initial_state [no_id_row]) = Some []
   \<and> uploadError (handleUpload initial_state [no_id_row]) = None"
proof -
  have n: "\<not> truthy (row_id no_id_row)"
    by (simp add: row_fields_examples truthy_def)
  then have b: "buildEmployeeMap [no_id_row] = []"
    by (simp add: build_no_ids)
  then have t: "handleUpload_try [no_id_row] = Inr ([], None)"
    by (simp add: handleUpload_try_def default_root_Nil)
  with n show ?thesis
    by (simp add: handleUpload_def)
qed

text \<open>
  Claim C3, amended. The upload throws exactly when there are no rows at all; it then
  records the error and leaves the index of the state as it was. On any other input it
  stores the built map and clears the error. When no row yields an identifier, that map
  is empty and no view root is set.
\<close>

theorem upload_fails_iff_no_rows:
  "(isl (handleUpload_try rows) \<longleftrightarrow> rows = [])
   \<and> (rows = [] \<longrightarrow>
        handleUpload s rows =
          s\<lparr>isLoading := False,
            uploadError := Some ''Failed to parse CSV. Please check the format.''\<rparr>)
   \<and> (rows \<noteq> [] \<longrightarrow>
        handleUpload s rows =
          s\<lparr>employeeMap := Some (buildEmployeeMap rows),
            viewRoot := default_root (buildEmployeeMap rows),
            isLoading := False, uploadError := None\<rparr>)
   \<and> (rows \<noteq> [] \<and> (\<forall>r \<in> set rows. \<not> truthy (row_id r)) \<longrightarrow>
        handleUpload s rows =
          s\<lparr>employeeMap := Some [], viewRoot := None, isLoading := False, uploadError := None\<rparr>)"
proof (intro conjI impI)
  show "isl (handleUpload_try rows) \<longleftrightarrow> rows = []"
    by (simp add: handleUpload_try_def Let_def)
next
  assume "rows = []"
  then show "handleUpload s rows =
          s\<lparr>isLoading := False,
            uploadError := Some ''Failed to parse CSV. Please check the format.''\<rparr>"
    by (simp add: handleUpload_def handleUpload_try_def)
next
  assume "rows \<noteq> []"
  then show "handleUpload s rows =
          s\<lparr>employeeMap := Some (buildEmployeeMap rows),
            viewRoot := default_root (buildEmployeeMap rows),
            isLoading := False, uploadError := None\<rparr>"
    by (simp add: handleUpload_def handleUpload_try_def Let_def)
next
  assume a: "rows \<noteq> [] \<and> (\<forall>r \<in> set rows. \<not> truthy (row_id r))"
  then have "buildEmployeeMap rows = []" by (simp add: build_no_ids)
  with a show "handleUpload s rows =
          s\<lparr>employeeMap := Some [], viewRoot := None, isLoading := False, uploadError := None\<rparr>"
    by (simp add: handleUpload_def handleUpload_try_def default_root_Nil)
qed

theorem upload_fails_iff_no_rows_witness:
  "isl (handleUpload_try [])
   \<and> handleUpload initial_state [] =
       initial_state\<lparr>isLoading := False,
         uploadError := Some ''Failed to parse CSV. Please check the format.''\<rparr>
   \<and> [no_id_row] \<noteq> []
   \<and> list_all (\<lambda>r. \<not> truthy (row_id r)) [no_id_row]
   \<and> \<not> isl (handleUpload_try [no_id_row])
   \<and> handleUpload initial_state [no_id_row] =
       initial_state\<lparr>employeeMap := Some [], viewRoot := None, isLoading := False,
         uploadError := None\<rparr>"
proof -
  have n: "list_all (\<lambda>r. \<not> truthy (row_id r)) [no_id_row]"
    by (simp add: row_fields_examples truthy_def)
  then have n': "\<forall>r \<in> set [no_id_row]. \<not> truthy (row_id r)"
    by (simp only: list_all_iff)
  have ne: "[no_id_row] \<noteq> []" by simp
  have e: "isl (handleUpload_try []) \<and> handleUpload initial_state [] =
       initial_state\<lparr>isLoading := False,
         uploadError := Some ''Failed to parse CSV. Please check the format.''\<rparr>"
    using upload_fails_iff_no_rows[of "[]" initial_state] by blast
  have f: "\<not> isl (handleUpload_try [no_id_row]) \<and> handleUpload initial_state [no_id_row] =
       initial_state\<lparr>employeeMap := Some [], viewRoot := None, isLoading := False,
         uploadError := None\<rparr>"
    using upload_fails_iff_no_rows[of "[no_id_row]" initial_state] ne n' by blast
  from e f n ne show ?thesis by blast
qed

section \<open>Going up to the manager\<close>

lemma build_keys_nonempty: "map_get (buildEmployeeMap rows) k = Some e \<Longrightarrow> k \<noteq> []"
  by (auto simp: map_get_def map_of_build dest!: last_row_for_usable usable_id_nonempty)

lemma example_index:
  "map_get (buildEmployeeMap example_rows) ''1'' =
     Some \<lparr>id_emp = ''1'', managerId = None, name = ''Root'', children = [''2'']\<rparr>"
  "map_get (buildEmployeeMap example_rows) ''2'' =
     Some \<lparr>id_emp = ''2'', managerId = Some ''1'', name = ''Child'', children = []\<rparr>"
  "map_get (buildEmployeeMap example_rows) ''3'' =
     Some \<lparr>id_emp = ''3'', managerId = Some ''99'', name = ''Orphan'', children = []\<rparr>"
  "map_get (buildEmployeeMap example_rows) ''99'' = None"
  by (simp_all add: build_eval example_eval)

text \<open>
  Claim C6, as stated, fails on the status. From the orphan node \<open>3\<close>, whose manager is
  not in the index, \<open>goUp\<close> leaves the state as it is; from the node \<open>2\<close> it moves the root
  to the node \<open>1\<close>. Both calls return \<open>undefined\<close>: the call that does nothing returns no
  status that tells it from the call that moves.
\<close>

theorem goUp_status_counterexample:
  "goUp (view_at ''3'') = view_at ''3''
   \<and> goUp (view_at ''2'') = view_at ''1''
   \<and> view_at ''1'' \<noteq> view_at ''2''
   \<and> goUp_returns (view_at ''3'') = Undefined
   \<and> goUp_returns (view_at ''2'') = Undefined
   \<and> goUp_returns (view_at ''3'') = goUp_returns (view_at ''2'')"
  by (simp add: goUp_def goUp_returns_def goUp_call_def view_at_def example_index
      initial_state_def)

text \<open>
  Claim C6, amended. With a built index loaded and a current root: if the root's
  \<open>managerId\<close> is a key of the index, \<open>goUp\<close> makes the entry stored under that key the new
  root and changes nothing else; if the \<open>managerId\<close> is null or no key of the index, the
  state stays as it is. Without a root or without an index the state stays as it is,
  too. In every case the call returns \<open>undefined\<close>.
\<close>

theorem goUp_moves_to_manager_or_stays:
  "(employeeMap s = Some (buildEmployeeMap rows) \<and> viewRoot s = Some current
      \<and> managerId current = Some mid \<and> map_get (buildEmployeeMap rows) mid = Some manager
     \<longrightarrow> goUp s = s\<lparr>viewRoot := Some manager\<rparr>)
   \<and> (employeeMap s = Some (buildEmployeeMap rows) \<and> viewRoot s = Some current
      \<and> (managerId current = None
           \<or> (\<exists>mid. managerId current = Some mid \<and> map_get (buildEmployeeMap rows) mid = None))
     \<longrightarrow> goUp s = s)
   \<and> (viewRoot s = None \<or> employeeMap s = None \<longrightarrow> goUp s = s)
   \<and> goUp_returns s = Undefined"
proof (intro conjI impI)
  assume a: "employeeMap s = Some (buildEmployeeMap rows) \<and> viewRoot s = Some current
      \<and> managerId current = Some mid \<and> map_get (buildEmployeeMap rows) mid = Some manager"
  then have "mid \<noteq> []" by (auto dest: build_keys_nonempty)
  with a show "goUp s = s\<lparr>viewRoot := Some manager\<rparr>"
    by (simp add: goUp_def goUp_call_def)
next
  assume "employeeMap s = Some (buildEmployeeMap rows) \<and> viewRoot s = Some current
      \<and> (managerId current = None
           \<or> (\<exists>mid. managerId current = Some mid \<and> map_get (buildEmployeeMap rows) mid = None))"
  then show "goUp s = s"
    by (auto simp: goUp_def goUp_call_def)
next
  assume "viewRoot s = None \<or> employeeMap s = None"
  then show "goUp s = s"
    by (auto simp: goUp_def goUp_call_def split: option.splits)
next
  show "goUp_returns s = Undefined"
    by (simp add: goUp_returns_def goUp_call_def split: option.splits)
qed

theorem goUp_moves_to_manager_or_stays_witness:
  "goUp (view_at ''2'') = view_at ''1''
   \<and> viewRoot (view_at ''3'') =
       Some \<lparr>id_emp = ''3'', managerId = Some ''99'', name = ''Orphan'', children = []\<rparr>
   \<and> map_get (buildEmployeeMap example_rows) ''99'' = None
   \<and> goUp (view_at ''3'') = view_at ''3''
   \<and> viewRoot (view_at ''1'') =
       Some \<lparr>id_emp = ''1'', managerId = None, name = ''Root'', children = [''2'']\<rparr>
   \<and> goUp (view_at ''1'') = view_at ''1''
   \<and> viewRoot initial_state = None
   \<and> goUp initial_state = initial_state
   \<and> goUp_returns (view_at ''2'') = Undefined
   \<and> goUp_returns (view_at ''3'') = Undefined"
proof -
  let ?idx = "buildEmployeeMap example_rows"
  let ?root = "\<lparr>id_emp = ''1'', managerId = None, name = ''Root'', children = [''2'']\<rparr>"
  let ?child = "\<lparr>id_emp = ''2'', managerId = Some ''1'', name = ''Child'', children = []\<rparr>"
  let ?orphan = "\<lparr>id_emp = ''3'', managerId = Some ''99'', name = ''Orphan'', children = []\<rparr>"
  have m: "employeeMap (view_at c) = Some ?idx" for c
    by (simp add: view_at_def)
  have v: "viewRoot (view_at ''1'') = Some ?root" "viewRoot (view_at ''2'') = Some ?child"
    "viewRoot (view_at ''3'') = Some ?orphan"
    by (simp_all add: view_at_def example_index)
  have i: "viewRoot initial_state = None" by (simp add: initial_state_def)
  have up: "(view_at ''2'')\<lparr>viewRoot := Some ?root\<rparr> = view_at ''1''"
    by (simp add: view_at_def example_index)
  have "goUp (view_at ''2'') = view_at ''1''"
    using goUp_moves_to_manager_or_stays[of "view_at ''2''" example_rows ?child "''1''" ?root]
      m v example_index up
    by simp
  moreover have "goUp (view_at ''3'') = view_at ''3''"
    using goUp_moves_to_manager_or_stays[of "view_at ''3''" example_rows ?orphan "''1''" ?root]
      m v example_index
    by simp
  moreover have "goUp (view_at ''1'') = view_at ''1''"
    using goUp_moves_to_manager_or_stays[of "view_at ''1''" example_rows ?root "''1''" ?root]
      m v example_index
    by simp
  moreover have "goUp initial_state = initial_state"
    using goUp_moves_to_manager_or_stays[of initial_state example_rows ?root "''1''" ?root] i
    by simp
  moreover have "goUp_returns (view_at ''2'') = Undefined"
    using goUp_moves_to_manager_or_stays[of "view_at ''2''" example_rows ?child "''1''" ?root]
    by simp
  moreover have "goUp_returns (view_at ''3'') = Undefined"
    using goUp_moves_to_manager_or_stays[of "view_at ''3''" example_rows ?orphan "''1''" ?root]
    by simp
  ultimately show ?thesis using v i example_index by simp
qed

section \<open>Search\<close>

lemma str_includes_sublist: "str_includes s q = sublist q s"
  by (induction s) (simp_all add: sublist_Cons_right)

lemma isWhiteSpace_toLowerCase_char: "isWhiteSpace (toLowerCase_char c) = isWhiteSpace c"
proof -
  have "(of_char c :: nat) < 256" by simp
  then show ?thesis
    by (auto simp: isWhiteSpace_def toLowerCase_char_def Let_def)
qed

lemma toLowerCase_dropWhile:
  "toLowerCase (dropWhile isWhiteSpace s) = dropWhile isWhiteSpace (toLowerCase s)"
  by (simp add: toLowerCase_def dropWhile_map comp_def isWhiteSpace_toLowerCase_char)

lemma toLowerCase_rev: "toLowerCase (rev s) = rev (toLowerCase s)"
  by (simp add: toLowerCase_def rev_map)

lemma toLowerCase_trim: "toLowerCase (trim q) = trim (toLowerCase q)"
  by (simp add: trim_def toLowerCase_dropWhile toLowerCase_rev)

lemma toLowerCase_Nil_iff: "(toLowerCase s = []) = (s = [])"
  by (simp add: toLowerCase_def)

text \<open>The test of one \<open>forEach\<close> step of the search, for the lowered and trimmed query.\<close>

lemma search_step_filter:
  "ql \<noteq> [] \<Longrightarrow>
   search_step (toLowerCase ql) field results e =
     results @ filter (field_matches field ql) [e]"
  by (cases field)
    (auto simp: search_step_def field_matches_def str_includes_sublist toLowerCase_Nil_iff
      toLowerCase_def split: option.splits)

lemma foldl_search_step:
  "ql \<noteq> [] \<Longrightarrow>
   foldl (search_step (toLowerCase ql) field) results es =
     results @ filter (field_matches field ql) es"
proof (induction es arbitrary: results)
  case Nil
  then show ?case by simp
next
  case (Cons e es)
  have "foldl (search_step (toLowerCase ql) field) results (e # es) =
      foldl (search_step (toLowerCase ql) field)
        (search_step (toLowerCase ql) field results e) es"
    by simp
  also have "\<dots> = search_step (toLowerCase ql) field results e
      @ filter (field_matches field ql) es"
    by (rule Cons.IH[OF Cons.prems])
  also have "\<dots> = results @ filter (field_matches field ql) (e # es)"
    by (simp add: search_step_filter[OF Cons.prems])
  finally show ?case .
qed

text \<open>
  Claim C4, as stated, fails. The query \<open>" child"\<close>, with a leading blank, is not
  whitespace-only, and no name of the example index contains it, in whatever case; yet
  the search returns the node \<open>2\<close>, named \<open>Child\<close>.
\<close>

theorem search_untrimmed_query_counterexample:
  "trim '' child'' \<noteq> []
   \<and> map id_emp (searchEmployees (buildEmployeeMap example_rows) '' child'' Name_field) = [''2'']
   \<and> filter (field_matches Name_field '' child'')
        (map_values (buildEmployeeMap example_rows)) = []"
  by code_simp

text \<open>
  Claim C4, amended. The search returns nothing when the query, trimmed, is empty.
  Otherwise it returns, in the iteration order of the map, exactly the employees whose
  chosen field contains the trimmed query when both are put in lower case; an employee
  without \<open>managerId\<close> never matches a search by \<open>managerId\<close>.
\<close>

theorem search_matches_trimmed_query:
  "searchEmployees m q field =
     (if trim q = [] then []
      else filter (field_matches field (trim q)) (map_values m))"
proof (cases "trim q = []")
  case True
  then have "trim (toLowerCase q) = []"
    by (simp add: toLowerCase_trim[symmetric] toLowerCase_Nil_iff)
  with True show ?thesis by (simp add: searchEmployees_def)
next
  case False
  then have "trim (toLowerCase q) \<noteq> []"
    by (simp add: toLowerCase_trim[symmetric] toLowerCase_Nil_iff)
  with False show ?thesis
    using foldl_search_step[OF False, of field "[]" "map_values m"]
    by (simp add: searchEmployees_def toLowerCase_trim)
qed

theorem search_matches_trimmed_query_witness:
  "map id_emp (searchEmployees (buildEmployeeMap example_rows) ''child'' Name_field) = [''2'']
   \<and> map id_emp (filter (field_matches Name_field (trim ''child''))
        (map_values (buildEmployeeMap example_rows))) = [''2'']
   \<and> searchEmployees (buildEmployeeMap example_rows) ''   '' Name_field = []"
proof -
  have t: "trim ''child'' \<noteq> []" "trim ''   '' = []" by code_simp+
  have f: "map id_emp (filter (field_matches Name_field (trim ''child''))
        (map_values (buildEmployeeMap example_rows))) = [''2'']" by code_simp
  show ?thesis
    using search_matches_trimmed_query[of "buildEmployeeMap example_rows" "''child''" Name_field]
      search_matches_trimmed_query[of "buildEmployeeMap example_rows" "''   ''" Name_field] t f
    by simp
qed

section \<open>Fitting the chart to the viewport\<close>

lemma bounds_step_first:
  "bounds_step (Infinity, NegInfinity, Infinity, NegInfinity) d =
     (Num (fst d), Num (fst d), Num (snd d), Num (snd d))"
  by (simp add: bounds_step_def)




lemma fitToScreen_of_box:
  assumes "bounding_box nodes = Some (minX, maxX, minY, maxY)"
    and "maxX - minX \<noteq> 0" and "maxY - minY \<noteq> 0"
  shows "fitToScreen nodes w h =
     Some \<lparr> tx = w / 2 - (minX + maxX) / 2
                 * min (max (min ((w - padding) / (maxX - minX))
                                 ((h - padding) / (maxY - minY))) (1 / 5)) 1,
            ty = h / 2 - (minY + maxY) / 2
                 * min (max (min ((w - padding) / (maxX - minX))
                                 ((h - padding) / (maxY - minY))) (1 / 5)) 1
                 - ((maxY - minY)
                    * min (max (min ((w - padding) / (maxX - minX))
                                    ((h - padding) / (maxY - minY))) (1 / 5)) 1 / 2) + 50,
            clampedScale = min (max (min ((w - padding) / (maxX - minX))
                                         ((h - padding) / (maxY - minY))) (1 / 5)) 1 \<rparr>"
  using assms by (simp add: fitToScreen_def js_div_def Let_def)

text \<open>
  Claim C7. For a single node at any position and a viewport of any size, the bounding
  box is the node's card, \<open>CARD_WIDTH\<close> wide and \<open>CARD_HEIGHT\<close> high; both divisions have a
  divisor other than zero; and the transform exists, with a scale that is the quotient
  clamped between \<open>1/5\<close> and \<open>1\<close>.
\<close>

theorem single_node_fit_scale_clamped:
  "bounding_box [(x, y)] = Some (x - CARD_WIDTH / 2, x + CARD_WIDTH / 2, y, y + CARD_HEIGHT)
   \<and> (\<exists>sw sh t. js_div (w - padding) CARD_WIDTH = Some sw
         \<and> js_div (h - padding) CARD_HEIGHT = Some sh
         \<and> fitToScreen [(x, y)] w h = Some t
         \<and> clampedScale t = min (max (min sw sh) (1 / 5)) 1
         \<and> 1 / 5 \<le> clampedScale t \<and> clampedScale t \<le> 1)"
proof -
  have b: "bounding_box [(x, y)] =
      Some (x - CARD_WIDTH / 2, x + CARD_WIDTH / 2, y, y + CARD_HEIGHT)"
    by (simp add: bounding_box_def bounds_step_first)
  have wd: "x + CARD_WIDTH / 2 - (x - CARD_WIDTH / 2) = CARD_WIDTH"
    and ht: "y + CARD_HEIGHT - y = CARD_HEIGHT" by simp_all
  have nz: "CARD_WIDTH \<noteq> 0" "CARD_HEIGHT \<noteq> 0"
    by (simp_all add: CARD_WIDTH_def CARD_HEIGHT_def)
  from nz have d: "js_div (w - padding) CARD_WIDTH = Some ((w - padding) / CARD_WIDTH)"
    "js_div (h - padding) CARD_HEIGHT = Some ((h - padding) / CARD_HEIGHT)"
    by (simp_all add: js_div_def)
  from nz have "fitToScreen [(x, y)] w h \<noteq> None
      \<and> clampedScale (the (fitToScreen [(x, y)] w h)) =
          min (max (min ((w - padding) / CARD_WIDTH) ((h - padding) / CARD_HEIGHT)) (1 / 5)) 1"
    using fitToScreen_of_box[OF b, of w h] by (simp add: wd ht)
  then obtain t where t: "fitToScreen [(x, y)] w h = Some t"
    "clampedScale t =
       min (max (min ((w - padding) / CARD_WIDTH) ((h - padding) / CARD_HEIGHT)) (1 / 5)) 1"
    by auto
  then have "1 / 5 \<le> clampedScale t" "clampedScale t \<le> 1" by simp_all
  with b d t show ?thesis by blast
qed




end
